theory Spec2Isabelle
  imports Main "HOL-Library.Word"
begin

unbundle bit_operations_syntax

section \<open>The duo\_web module\<close>

text \<open>
  The module \<^verbatim>\<open>src/duo_web/__init__.py\<close> is Python 2 code: its strings are byte
  strings, modelled as \<^typ>\<open>string\<close> (a list of 8-bit characters). A Python name that
  starts with an underscore is written with the prefix \<open>priv_\<close>
  (\<^verbatim>\<open>_parse_vals\<close> is \<open>priv_parse_vals\<close>), every other name is kept.

  A function that can raise returns a sum: \<open>Inl\<close> carries the exception,
  \<open>Inr\<close> the returned value. Python's \<^verbatim>\<open>None\<close> against a string is
  \<^typ>\<open>string option\<close>.

  The clock is an input: every call of \<^verbatim>\<open>int(time.time())\<close> is one integer argument
  of the model. Functions that read the clock twice take two readings, with no relation
  assumed between them.
\<close>

datatype py_exn = ValueError | TypeError

subsection \<open>The library functions the module calls\<close>

text \<open>\<^verbatim>\<open>s.split(sep)\<close> for a one-character separator: one more piece than separators.\<close>

fun split_on :: "char \<Rightarrow> string \<Rightarrow> string list" where
  "split_on c [] = [[]]"
| "split_on c (x # xs) =
     (if x = c then [] # split_on c xs
      else (case split_on c xs of
              [] \<Rightarrow> [[x]]
            | r # rs \<Rightarrow> (x # r) # rs))"

text \<open>\<^verbatim>\<open>sep.join(xs)\<close>.\<close>

fun join_with :: "string \<Rightarrow> string list \<Rightarrow> string" where
  "join_with sep [] = []"
| "join_with sep [x] = x"
| "join_with sep (x # y # ys) = x @ sep @ join_with sep (y # ys)"

text \<open>\<^verbatim>\<open>str(n)\<close> of an integer: its decimal digits, with a minus sign when negative.\<close>

definition digit_char :: "nat \<Rightarrow> char" where
  "digit_char d = char_of (48 + d)"

fun digits_of :: "nat \<Rightarrow> string" where
  "digits_of n = (if n < 10 then [digit_char n] else digits_of (n div 10) @ [digit_char (n mod 10)])"

declare digits_of.simps [simp del]

definition py_str :: "int \<Rightarrow> string" where
  "py_str i = (if i < 0 then CHR ''-'' # digits_of (nat (- i)) else digits_of (nat i))"

text \<open>
  \<^verbatim>\<open>int(s)\<close> of a string, base 10: surrounding whitespace is dropped, one sign is
  accepted, the rest must be a non-empty run of decimal digits; anything else raises
  \<^verbatim>\<open>ValueError\<close>.
\<close>

definition is_space :: "char \<Rightarrow> bool" where
  "is_space c = ((of_char c :: nat) \<in> {9, 10, 11, 12, 13, 32})"

definition is_digit :: "char \<Rightarrow> bool" where
  "is_digit c = (48 \<le> (of_char c :: nat) \<and> (of_char c :: nat) \<le> 57)"

definition strip :: "string \<Rightarrow> string" where
  "strip s = rev (dropWhile is_space (rev (dropWhile is_space s)))"

definition dec_val :: "string \<Rightarrow> nat" where
  "dec_val ds = foldl (\<lambda>a c. 10 * a + (of_char c - 48)) 0 ds"

definition parse_nat :: "string \<Rightarrow> py_exn + nat" where
  "parse_nat ds = (if ds \<noteq> [] \<and> list_all is_digit ds then Inr (dec_val ds) else Inl ValueError)"

definition py_int :: "string \<Rightarrow> py_exn + int" where
  "py_int s =
     (case strip s of
        [] \<Rightarrow> Inl ValueError
      | c # r \<Rightarrow>
          if c = CHR ''-'' then map_sum id (\<lambda>n. - int n) (parse_nat r)
          else if c = CHR ''+'' then map_sum id int (parse_nat r)
          else map_sum id int (parse_nat (c # r)))"

text \<open>
  \<^verbatim>\<open>base64.b64encode\<close>: the standard alphabet, three bytes to four characters,
  padded with \<^verbatim>\<open>=\<close>.
\<close>

definition b64_char :: "nat \<Rightarrow> char" where
  "b64_char i =
     (if i < 26 then char_of (65 + i)
      else if i < 52 then char_of (71 + i)
      else if i < 62 then char_of (i - 4)
      else if i = 62 then CHR ''+'' else CHR ''/'')"

fun b64encode :: "string \<Rightarrow> string" where
  "b64encode [] = []"
| "b64encode [a] =
     (let x = (of_char a :: nat)
      in [b64_char (x div 4), b64_char ((x mod 4) * 16), CHR ''='', CHR ''=''])"
| "b64encode [a, b] =
     (let x = (of_char a :: nat); y = (of_char b :: nat)
      in [b64_char (x div 4), b64_char ((x mod 4) * 16 + y div 16),
          b64_char ((y mod 16) * 4), CHR ''=''])"
| "b64encode (a # b # c # rest) =
     (let x = (of_char a :: nat); y = (of_char b :: nat); z = (of_char c :: nat)
      in [b64_char (x div 4), b64_char ((x mod 4) * 16 + y div 16),
          b64_char ((y mod 16) * 4 + z div 64), b64_char (z mod 64)] @ b64encode rest)"

text \<open>
  \<^verbatim>\<open>base64.b64decode\<close> is \<^verbatim>\<open>binascii.a2b_base64\<close> with its error turned into
  \<^verbatim>\<open>TypeError\<close>. The decoder of CPython 2 is lenient: it skips every character
  outside the alphabet, shifts six bits in for each alphabet character, emits a byte
  whenever eight bits are there, stops at a pad that closes a quad, and raises only when
  bits are left over at the end.
\<close>

definition b64_val :: "char \<Rightarrow> nat option" where
  "b64_val c =
     (let n = (of_char c :: nat)
      in if 65 \<le> n \<and> n \<le> 90 then Some (n - 65)
         else if 97 \<le> n \<and> n \<le> 122 then Some (n - 71)
         else if 48 \<le> n \<and> n \<le> 57 then Some (n + 4)
         else if n = 43 then Some 62
         else if n = 47 then Some 63
         else None)"

text \<open>\<^verbatim>\<open>binascii_find_valid(s, slen, num)\<close>: the \<open>num\<close>-th valid character, counted from 0.\<close>

fun find_valid :: "string \<Rightarrow> nat \<Rightarrow> char option" where
  "find_valid [] num = None"
| "find_valid (c # s) num =
     (if (of_char c :: nat) \<le> 127 \<and> (b64_val c \<noteq> None \<or> c = CHR ''='')
      then (if num = 0 then Some c else find_valid s (num - 1))
      else find_valid s num)"

text \<open>The decoder's loop; it returns the bits left over and the bytes written.\<close>

fun a2b_loop :: "string \<Rightarrow> nat \<Rightarrow> nat \<Rightarrow> nat \<Rightarrow> string \<Rightarrow> nat \<times> string" where
  "a2b_loop [] quad_pos leftchar leftbits out = (leftbits, out)"
| "a2b_loop (c # s) quad_pos leftchar leftbits out =
     (if (of_char c :: nat) > 127 \<or> (of_char c :: nat) \<in> {13, 10, 32}
      then a2b_loop s quad_pos leftchar leftbits out
      else if c = CHR ''=''
      then (if quad_pos < 2 \<or> (quad_pos = 2 \<and> find_valid (c # s) 1 \<noteq> Some (CHR ''=''))
            then a2b_loop s quad_pos leftchar leftbits out
            else (0, out))
      else (case b64_val c of
              None \<Rightarrow> a2b_loop s quad_pos leftchar leftbits out
            | Some v \<Rightarrow>
                (let quad_pos' = (quad_pos + 1) mod 4;
                     leftchar' = leftchar * 64 + v;
                     leftbits' = leftbits + 6
                 in if leftbits' \<ge> 8
                    then a2b_loop s quad_pos' (leftchar' mod 2 ^ (leftbits' - 8)) (leftbits' - 8)
                           (out @ [char_of ((leftchar' div 2 ^ (leftbits' - 8)) mod 256)])
                    else a2b_loop s quad_pos' leftchar' leftbits' out)))"

definition b64decode :: "string \<Rightarrow> py_exn + string" where
  "b64decode s =
     (case a2b_loop s 0 0 0 [] of
        (leftbits, out) \<Rightarrow> if leftbits \<noteq> 0 then Inl TypeError else Inr out)"

subsection \<open>SHA-1 and HMAC\<close>

text \<open>
  \<^verbatim>\<open>hashlib.sha1\<close> after FIPS 180 and \<^verbatim>\<open>hmac.new(key, msg, hashlib.sha1)\<close> after
  RFC 2104, on bytes as 8-bit words and with 32-bit word arithmetic.
\<close>

type_synonym u8 = "8 word"
type_synonym u32 = "32 word"

definition rotl32 :: "nat \<Rightarrow> u32 \<Rightarrow> u32" where
  "rotl32 n x = push_bit n x OR drop_bit (32 - n) x"

definition be32 :: "u32 \<Rightarrow> u8 list" where
  "be32 w = [ucast (drop_bit 24 w), ucast (drop_bit 16 w), ucast (drop_bit 8 w), ucast w]"

definition be64 :: "64 word \<Rightarrow> u8 list" where
  "be64 w = map (\<lambda>i. ucast (drop_bit (8 * i) w)) [7, 6, 5, 4, 3, 2, 1, 0]"

definition sha1_pad :: "u8 list \<Rightarrow> u8 list" where
  "sha1_pad bs =
     bs @ [128] @ replicate ((119 - length bs mod 64) mod 64) 0 @ be64 (of_nat (8 * length bs))"

fun words_of :: "u8 list \<Rightarrow> u32 list" where
  "words_of (a # b # c # d # bs) =
     (push_bit 24 (ucast a) OR push_bit 16 (ucast b) OR push_bit 8 (ucast c) OR ucast d)
       # words_of bs"
| "words_of _ = []"

fun chunks :: "nat \<Rightarrow> nat \<Rightarrow> 'a list \<Rightarrow> 'a list list" where
  "chunks 0 k xs = []"
| "chunks (Suc n) k xs = take k xs # chunks n k (drop k xs)"

text \<open>The message schedule, newest word first.\<close>

fun expand :: "nat \<Rightarrow> u32 list \<Rightarrow> u32 list" where
  "expand 0 ws = ws"
| "expand (Suc n) ws =
     expand n (rotl32 1 (ws ! 2 XOR ws ! 7 XOR ws ! 13 XOR ws ! 15) # ws)"

type_synonym sha_state = "u32 \<times> u32 \<times> u32 \<times> u32 \<times> u32"

fun sha1_round :: "sha_state \<Rightarrow> nat \<times> u32 \<Rightarrow> sha_state" where
  "sha1_round (a, b, c, d, e) (i, w) =
     (let f = (if i < 20 then (b AND c) OR (NOT b AND d)
               else if i < 40 then b XOR c XOR d
               else if i < 60 then (b AND c) OR (b AND d) OR (c AND d)
               else b XOR c XOR d);
          k = (if i < 20 then 0x5A827999
               else if i < 40 then 0x6ED9EBA1
               else if i < 60 then 0x8F1BBCDC
               else 0xCA62C1D6)
      in (rotl32 5 a + f + e + k + w, a, rotl32 30 b, c, d))"

fun sha1_block :: "sha_state \<Rightarrow> u8 list \<Rightarrow> sha_state" where
  "sha1_block (h0, h1, h2, h3, h4) block =
     (let ws = rev (expand 64 (rev (words_of block)));
          (a, b, c, d, e) = foldl sha1_round (h0, h1, h2, h3, h4) (zip [0..<80] ws)
      in (h0 + a, h1 + b, h2 + c, h3 + d, h4 + e))"

definition sha1 :: "u8 list \<Rightarrow> u8 list" where
  "sha1 bs =
     (let p = sha1_pad bs;
          (h0, h1, h2, h3, h4) =
             foldl sha1_block (0x67452301, 0xEFCDAB89, 0x98BADCFE, 0x10325476, 0xC3D2E1F0)
               (chunks (length p div 64) 64 p)
      in concat (map be32 [h0, h1, h2, h3, h4]))"

definition hmac_sha1_digest :: "u8 list \<Rightarrow> u8 list \<Rightarrow> u8 list" where
  "hmac_sha1_digest key msg =
     (let k0 = (if length key > 64 then sha1 key else key);
          k = k0 @ replicate (64 - length k0) 0
      in sha1 (map (\<lambda>b. b XOR 0x5C) k @ sha1 (map (\<lambda>b. b XOR 0x36) k @ msg)))"

text \<open>\<^verbatim>\<open>hexdigest()\<close>: two lowercase hexadecimal digits for each byte.\<close>

definition hexchar :: "nat \<Rightarrow> char" where
  "hexchar n = (if n < 10 then char_of (48 + n) else char_of (87 + n))"

definition hexlify :: "u8 list \<Rightarrow> string" where
  "hexlify bs = concat (map (\<lambda>b. [hexchar (unat b div 16), hexchar (unat b mod 16)]) bs)"

definition bytes_of :: "string \<Rightarrow> u8 list" where
  "bytes_of s = map of_char s"

subsection \<open>The module\<close>

definition DUO_PREFIX :: string where "DUO_PREFIX = ''TX''"
definition APP_PREFIX :: string where "APP_PREFIX = ''APP''"
definition AUTH_PREFIX :: string where "AUTH_PREFIX = ''AUTH''"
definition ENROLL_PREFIX :: string where "ENROLL_PREFIX = ''ENROLL''"
definition ENROLL_REQUEST_PREFIX :: string where "ENROLL_REQUEST_PREFIX = ''ENROLL_REQUEST''"

definition DUO_EXPIRE :: int where "DUO_EXPIRE = 300"
definition APP_EXPIRE :: int where "APP_EXPIRE = 3600"

definition IKEY_LEN :: nat where "IKEY_LEN = 20"
definition SKEY_LEN :: nat where "SKEY_LEN = 40"
definition AKEY_LEN :: nat where "AKEY_LEN = 40"

definition ERR_USER :: string where
  "ERR_USER = ''ERR|The username passed to sign_request() is invalid.''"
definition ERR_IKEY :: string where
  "ERR_IKEY = ''ERR|The Duo integration key passed to sign_request() is invalid.''"
definition ERR_SKEY :: string where
  "ERR_SKEY = ''ERR|The Duo secret key passed to sign_request() is invalid.''"
definition ERR_AKEY :: string where
  "ERR_AKEY = ''ERR|The application secret key passed to sign_request() must be at least ''
     @ py_str (int AKEY_LEN) @ '' characters.''"
definition ERR_UNKNOWN :: string where
  "ERR_UNKNOWN = ''ERR|An unknown error has occurred.''"

definition priv_hmac_sha1 :: "string \<Rightarrow> string \<Rightarrow> string" where
  "priv_hmac_sha1 key msg = hexlify (hmac_sha1_digest (bytes_of key) (bytes_of msg))"

text \<open>\<^verbatim>\<open>_sign_vals(key, vals, prefix, expire)\<close>, with the clock reading \<open>now\<close>.\<close>

definition priv_sign_vals :: "string \<Rightarrow> string list \<Rightarrow> string \<Rightarrow> int \<Rightarrow> int \<Rightarrow> py_exn + string" where
  "priv_sign_vals key vals prefix expire now =
     (let exp = py_str (now + expire);
          val = join_with ''|'' (vals @ [exp]);
          b64 = b64encode val;
          cookie = prefix @ ''|'' @ b64;
          sig = priv_hmac_sha1 key cookie
      in Inr (cookie @ ''|'' @ sig))"

text \<open>
  \<^verbatim>\<open>_parse_vals(key, val, prefix)\<close>, with the clock reading \<open>ts\<close>. Unpacking a split
  of the wrong length raises \<^verbatim>\<open>ValueError\<close>.
\<close>

definition priv_parse_vals :: "string \<Rightarrow> string \<Rightarrow> string \<Rightarrow> int \<Rightarrow> py_exn + string option" where
  "priv_parse_vals key val prefix ts =
     (case split_on CHR ''|'' val of
        [u_prefix, u_b64, u_sig] \<Rightarrow>
          (let sig = priv_hmac_sha1 key (u_prefix @ ''|'' @ u_b64)
           in if priv_hmac_sha1 key sig \<noteq> priv_hmac_sha1 key u_sig then Inr None
              else if u_prefix \<noteq> prefix then Inr None
              else (case b64decode u_b64 of
                      Inl e \<Rightarrow> Inl e
                    | Inr payload \<Rightarrow>
                        (case split_on CHR ''|'' payload of
                           [user, ikey, exp] \<Rightarrow>
                             (case py_int exp of
                                Inl e \<Rightarrow> Inl e
                              | Inr x \<Rightarrow> if ts \<ge> x then Inr None else Inr (Some user))
                         | _ \<Rightarrow> Inl ValueError)))
      | _ \<Rightarrow> Inl ValueError)"

text \<open>
  \<^verbatim>\<open>_sign_request(ikey, skey, akey, username, prefix)\<close>; \<open>now1\<close> and \<open>now2\<close> are the
  clock readings of its two \<^verbatim>\<open>_sign_vals\<close> calls.
\<close>

definition priv_sign_request ::
  "string \<Rightarrow> string \<Rightarrow> string \<Rightarrow> string \<Rightarrow> string \<Rightarrow> int \<Rightarrow> int \<Rightarrow> py_exn + string" where
  "priv_sign_request ikey skey akey username prefix now1 now2 =
     (if username = [] then Inr ERR_USER
      else if ikey = [] \<or> length ikey \<noteq> IKEY_LEN then Inr ERR_IKEY
      else if skey = [] \<or> length skey \<noteq> SKEY_LEN then Inr ERR_SKEY
      else if akey = [] \<or> length akey < AKEY_LEN then Inr ERR_AKEY
      else (let vals = [username, ikey]
            in case priv_sign_vals skey vals prefix DUO_EXPIRE now1 of
                 Inl e \<Rightarrow> Inr ERR_UNKNOWN
               | Inr duo_sig \<Rightarrow>
                   (case priv_sign_vals akey vals APP_PREFIX APP_EXPIRE now2 of
                      Inl e \<Rightarrow> Inr ERR_UNKNOWN
                    | Inr app_sig \<Rightarrow> Inr (duo_sig @ '':'' @ app_sig))))"

definition sign_request ::
  "string \<Rightarrow> string \<Rightarrow> string \<Rightarrow> string \<Rightarrow> int \<Rightarrow> int \<Rightarrow> py_exn + string" where
  "sign_request ikey skey akey username now1 now2 =
     priv_sign_request ikey skey akey username DUO_PREFIX now1 now2"

definition sign_enroll_request ::
  "string \<Rightarrow> string \<Rightarrow> string \<Rightarrow> string \<Rightarrow> int \<Rightarrow> int \<Rightarrow> py_exn + string" where
  "sign_enroll_request ikey skey akey username now1 now2 =
     priv_sign_request ikey skey akey username ENROLL_REQUEST_PREFIX now1 now2"

text \<open>
  The body of the \<^verbatim>\<open>try\<close> block of \<^verbatim>\<open>_verify_response\<close>: the split of the response
  and the two parses, either of which may raise.
\<close>

definition verify_try ::
  "string \<Rightarrow> string \<Rightarrow> string \<Rightarrow> string \<Rightarrow> int \<Rightarrow> int \<Rightarrow> py_exn + (string option \<times> string option)" where
  "verify_try skey akey prefix sig_response ts1 ts2 =
     (case split_on CHR '':'' sig_response of
        [sig, app_sig] \<Rightarrow>
          (case priv_parse_vals skey sig prefix ts1 of
             Inl e \<Rightarrow> Inl e
           | Inr user \<Rightarrow>
               (case priv_parse_vals akey app_sig APP_PREFIX ts2 of
                  Inl e \<Rightarrow> Inl e
                | Inr app_user \<Rightarrow> Inr (user, app_user)))
      | _ \<Rightarrow> Inl ValueError)"

text \<open>
  \<^verbatim>\<open>_verify_response(ikey, skey, akey, prefix, sig_response)\<close>; \<open>ts1\<close> and \<open>ts2\<close> are
  the clock readings of its two \<^verbatim>\<open>_parse_vals\<close> calls. The bare \<^verbatim>\<open>except\<close> turns
  every exception of the block into \<^verbatim>\<open>None\<close>.
\<close>

definition priv_verify_response ::
  "string \<Rightarrow> string \<Rightarrow> string \<Rightarrow> string \<Rightarrow> string \<Rightarrow> int \<Rightarrow> int \<Rightarrow> py_exn + string option" where
  "priv_verify_response ikey skey akey prefix sig_response ts1 ts2 =
     (case verify_try skey akey prefix sig_response ts1 ts2 of
        Inl e \<Rightarrow> Inr None
      | Inr (user, app_user) \<Rightarrow> if user \<noteq> app_user then Inr None else Inr user)"

definition verify_response ::
  "string \<Rightarrow> string \<Rightarrow> string \<Rightarrow> string \<Rightarrow> int \<Rightarrow> int \<Rightarrow> py_exn + string option" where
  "verify_response ikey skey akey sig_response ts1 ts2 =
     priv_verify_response ikey skey akey AUTH_PREFIX sig_response ts1 ts2"

definition verify_enroll_response ::
  "string \<Rightarrow> string \<Rightarrow> string \<Rightarrow> string \<Rightarrow> int \<Rightarrow> int \<Rightarrow> py_exn + string option" where
  "verify_enroll_response ikey skey akey sig_response ts1 ts2 =
     priv_verify_response ikey skey akey ENROLL_PREFIX sig_response ts1 ts2"

subsection \<open>The signed value and the parser of the specification\<close>

text \<open>
  The string \<^verbatim>\<open>_sign_vals\<close> builds around a payload, named so that the theorems can
  speak about it: the prefix, the base64 of the payload and the HMAC of both.
\<close>

definition signed_value :: "string \<Rightarrow> string \<Rightarrow> string \<Rightarrow> string" where
  "signed_value key prefix payload =
     prefix @ ''|'' @ b64encode payload @ ''|'' @
     priv_hmac_sha1 key (prefix @ ''|'' @ b64encode payload)"

text \<open>
  The parser as section 4.3 of the specification describes it, step by step, with the
  failure modes it names. It is compared with \<open>priv_parse_vals\<close> below.
\<close>

datatype failure = MalformedValue | SignatureMismatch | PrefixMismatch | MalformedPayload | Expired

definition decode_payload :: "string \<Rightarrow> failure + (string \<times> string \<times> int)" where
  "decode_payload payload =
     (case b64decode payload of
        Inl e \<Rightarrow> Inl MalformedPayload
      | Inr fields \<Rightarrow>
          (case split_on CHR ''|'' fields of
             [username, ikey_claim, exp] \<Rightarrow>
               (case py_int exp of
                  Inl e \<Rightarrow> Inl MalformedPayload
                | Inr expiration \<Rightarrow> Inr (username, ikey_claim, expiration))
           | _ \<Rightarrow> Inl MalformedPayload))"

definition parse_value :: "string \<Rightarrow> string \<Rightarrow> string \<Rightarrow> int \<Rightarrow> failure + string" where
  "parse_value key signed_value_string expected_prefix current_time =
     (case split_on CHR ''|'' signed_value_string of
        [prefix, payload, signature] \<Rightarrow>
          (let expected_signature = priv_hmac_sha1 key (prefix @ ''|'' @ payload)
           in if priv_hmac_sha1 key expected_signature \<noteq> priv_hmac_sha1 key signature
              then Inl SignatureMismatch
              else if prefix \<noteq> expected_prefix then Inl PrefixMismatch
              else (case decode_payload payload of
                      Inl f \<Rightarrow> Inl f
                    | Inr (username, ikey_claim, expiration) \<Rightarrow>
                        if current_time \<ge> expiration then Inl Expired else Inr username))
      | _ \<Rightarrow> Inl MalformedValue)"

text \<open>
  The verify contract of section 4.4: the username when the response has two halves that
  both parse and carry the same username, the failure outcome otherwise.
\<close>

definition verify_contract ::
  "string \<Rightarrow> string \<Rightarrow> string \<Rightarrow> string \<Rightarrow> int \<Rightarrow> int \<Rightarrow> string option" where
  "verify_contract skey akey expected_prefix response ts1 ts2 =
     (case split_on CHR '':'' response of
        [part1, part2] \<Rightarrow>
          (case parse_value skey part1 expected_prefix ts1 of
             Inl f \<Rightarrow> None
           | Inr user \<Rightarrow>
               (case parse_value akey part2 APP_PREFIX ts2 of
                  Inl f \<Rightarrow> None
                | Inr app_user \<Rightarrow> if user = app_user then Some user else None))
      | _ \<Rightarrow> None)"

section \<open>Facts about the library functions\<close>

lemma split_on_nonempty: "split_on c s \<noteq> []"
  by (induction s) (auto split: list.splits)

lemma split_on_no_sep: "c \<notin> set s \<Longrightarrow> split_on c s = [s]"
  by (induction s) auto

lemma split_on_append: "c \<notin> set a \<Longrightarrow> split_on c (a @ c # b) = a # split_on c b"
  by (induction a) (auto split: list.splits simp: split_on_nonempty)

lemma of_char_lt_256: "(of_char c :: nat) < 256"
  by (metis of_char_mod_256 mod_less_divisor zero_less_numeral)

lemma of_char_b64_char:
  "(of_char (b64_char i) :: nat) =
     (if i < 26 then 65 + i else if i < 52 then 71 + i else if i < 62 then i - 4
      else if i = 62 then 43 else 47)"
  by (simp add: b64_char_def)

lemma b64_val_b64_char: "i < 64 \<Longrightarrow> b64_val (b64_char i) = Some i"
  unfolding b64_val_def Let_def of_char_b64_char by auto

lemma of_char_hexchar:
  "n < 16 \<Longrightarrow> (of_char (hexchar n) :: nat) = (if n < 10 then 48 + n else 87 + n)"
  by (simp add: hexchar_def)

lemma of_char_digit_char: "d < 10 \<Longrightarrow> (of_char (digit_char d) :: nat) = 48 + d"
  by (simp add: digit_char_def)

lemma char_neq_by_code: "(of_char c :: nat) \<noteq> of_char d \<Longrightarrow> d \<noteq> c"
  by auto

lemma b64_char_not_sep: "CHR ''|'' \<noteq> b64_char i \<and> CHR '':'' \<noteq> b64_char i"
proof -
  have "(of_char (b64_char i) :: nat) \<noteq> 124 \<and> (of_char (b64_char i) :: nat) \<noteq> 58"
    unfolding of_char_b64_char by auto
  then show ?thesis by (simp add: char_neq_by_code)
qed

lemma b64encode_no_sep: "CHR ''|'' \<notin> set (b64encode s) \<and> CHR '':'' \<notin> set (b64encode s)"
  by (induction s rule: b64encode.induct) (simp_all add: Let_def b64_char_not_sep)

lemma hexchar_not_sep: "n < 16 \<Longrightarrow> CHR ''|'' \<noteq> hexchar n \<and> CHR '':'' \<noteq> hexchar n"
proof -
  assume n: "n < 16"
  have "(of_char (hexchar n) :: nat) \<noteq> 124 \<and> (of_char (hexchar n) :: nat) \<noteq> 58"
    using n by (simp add: of_char_hexchar)
  then show ?thesis by (simp add: char_neq_by_code)
qed

lemma unat_u8_div16: "unat (b :: 8 word) div 16 < 16"
proof -
  have "unat b < 2 ^ 8" using unsigned_less [of b, where ?'a = nat] by simp
  then show ?thesis by simp
qed

lemma hexlify_no_sep: "CHR ''|'' \<notin> set (hexlify bs) \<and> CHR '':'' \<notin> set (hexlify bs)"
  by (induction bs) (simp_all add: hexlify_def hexchar_not_sep unat_u8_div16)

lemma hmac_no_sep:
  "CHR ''|'' \<notin> set (priv_hmac_sha1 k m) \<and> CHR '':'' \<notin> set (priv_hmac_sha1 k m)"
  by (simp add: priv_hmac_sha1_def hexlify_no_sep)

lemma digit_char_not_sep: "d < 10 \<Longrightarrow> CHR ''|'' \<noteq> digit_char d"
proof -
  assume d: "d < 10"
  have "(of_char (digit_char d) :: nat) \<noteq> 124" using d by (simp add: of_char_digit_char)
  then show ?thesis by (simp add: char_neq_by_code)
qed

lemma digits_of_no_sep: "CHR ''|'' \<notin> set (digits_of n)"
proof (induction n rule: digits_of.induct)
  case (1 n)
  show ?case
  proof (cases "n < 10")
    case True
    then show ?thesis by (simp add: digits_of.simps [of n] digit_char_not_sep)
  next
    case False
    then show ?thesis using 1 by (simp add: digits_of.simps [of n] digit_char_not_sep)
  qed
qed

lemma py_str_no_sep: "CHR ''|'' \<notin> set (py_str i)"
  by (simp add: py_str_def digits_of_no_sep)

lemma priv_sign_vals_eq:
  "priv_sign_vals key [u, ik] prefix expire now =
     Inr (prefix @ ''|'' @ b64encode (u @ ''|'' @ ik @ ''|'' @ py_str (now + expire)) @ ''|'' @
          priv_hmac_sha1 key (prefix @ ''|'' @ b64encode (u @ ''|'' @ ik @ ''|'' @ py_str (now + expire))))"
  by (simp add: priv_sign_vals_def Let_def)

lemma priv_sign_request_valid:
  assumes "username \<noteq> []" "length ikey = 20" "length skey = 40" "length akey \<ge> 40"
  shows "priv_sign_request ikey skey akey username prefix now1 now2 =
     Inr ((prefix @ ''|'' @ b64encode (username @ ''|'' @ ikey @ ''|'' @ py_str (now1 + 300)) @ ''|'' @
            priv_hmac_sha1 skey (prefix @ ''|'' @ b64encode (username @ ''|'' @ ikey @ ''|'' @ py_str (now1 + 300))))
          @ '':'' @
          (''APP|'' @ b64encode (username @ ''|'' @ ikey @ ''|'' @ py_str (now2 + 3600)) @ ''|'' @
            priv_hmac_sha1 akey (''APP|'' @ b64encode (username @ ''|'' @ ikey @ ''|'' @ py_str (now2 + 3600)))))"
proof -
  have k: "ikey \<noteq> []" "skey \<noteq> []" "akey \<noteq> []" using assms by auto
  show ?thesis
    using assms k
    by (simp add: priv_sign_request_def priv_sign_vals_eq IKEY_LEN_def SKEY_LEN_def AKEY_LEN_def
        DUO_EXPIRE_def APP_EXPIRE_def APP_PREFIX_def)
qed

lemma length_sha1: "length (sha1 bs) = 20"
  by (simp add: sha1_def Let_def split_def be32_def)

lemma length_hexlify: "length (hexlify bs) = 2 * length bs"
  by (induction bs) (simp_all add: hexlify_def)

lemma length_hmac: "length (priv_hmac_sha1 k m) = 40"
  by (simp add: priv_hmac_sha1_def length_hexlify hmac_sha1_digest_def Let_def length_sha1)
text \<open>The decoder reads back what the encoder writes.\<close>

lemma a2b_step_plain:
  assumes "v < 64"
  shows "a2b_loop (b64_char v # s) q lc lb out =
     (if lb + 6 \<ge> 8
      then a2b_loop s ((q + 1) mod 4) ((lc * 64 + v) mod 2 ^ (lb + 6 - 8)) (lb + 6 - 8)
             (out @ [char_of (((lc * 64 + v) div 2 ^ (lb + 6 - 8)) mod 256)])
      else a2b_loop s ((q + 1) mod 4) (lc * 64 + v) (lb + 6) out)"
proof -
  have n: "(of_char (b64_char v) :: nat) \<le> 127" "(of_char (b64_char v) :: nat) \<notin> {13, 10, 32}"
    "(of_char (b64_char v) :: nat) \<noteq> 61"
    using assms unfolding of_char_b64_char by auto
  have ne: "b64_char v \<noteq> CHR ''=''"
    using n(3) by auto
  show ?thesis
    using n(1,2) ne assms by (simp add: b64_val_b64_char Let_def)
qed

lemma a2b_step0: "v < 64 \<Longrightarrow> a2b_loop (b64_char v # s) 0 0 0 out = a2b_loop s 1 v 6 out"
  by (simp add: a2b_step_plain del: a2b_loop.simps)

lemma a2b_step1:
  "v < 64 \<Longrightarrow> a2b_loop (b64_char v # s) 1 lc 6 out =
     a2b_loop s 2 ((lc * 64 + v) mod 16) 4 (out @ [char_of ((lc * 64 + v) div 16 mod 256)])"
proof -
  have q: "Suc (Suc 0) = 2" by simp
  assume "v < 64"
  then show ?thesis by (simp add: a2b_step_plain q del: a2b_loop.simps)
qed

lemma a2b_step2:
  "v < 64 \<Longrightarrow> a2b_loop (b64_char v # s) 2 lc 4 out =
     a2b_loop s 3 ((lc * 64 + v) mod 4) 2 (out @ [char_of ((lc * 64 + v) div 4 mod 256)])"
  by (simp add: a2b_step_plain del: a2b_loop.simps)

lemma a2b_step3:
  "v < 64 \<Longrightarrow> a2b_loop (b64_char v # s) 3 lc 2 out =
     a2b_loop s 0 0 0 (out @ [char_of ((lc * 64 + v) mod 256)])"
  by (simp add: a2b_step_plain del: a2b_loop.simps)

lemma sextets_1: "(x::nat) div 4 * 64 + (x mod 4 * 16 + y div 16) = 16 * x + y div 16"
proof -
  have "x div 4 * 4 + x mod 4 = x" by simp
  then show ?thesis by linarith
qed

lemma sextets_2: "(y::nat) div 16 * 64 + (y mod 16 * 4 + z div 64) = 4 * y + z div 64"
proof -
  have "y div 16 * 16 + y mod 16 = y" by simp
  then show ?thesis by linarith
qed

lemma a2b_pair:
  assumes "x < 256" "y < 256"
  shows "a2b_loop (b64_char (x div 4) # b64_char (x mod 4 * 16 + y div 16) # s) 0 0 0 out =
         a2b_loop s 2 (y div 16) 4 (out @ [char_of x])"
proof -
  have b: "x div 4 < 64" "x mod 4 * 16 + y div 16 < 64"
    using assms by auto
  have "a2b_loop (b64_char (x div 4) # b64_char (x mod 4 * 16 + y div 16) # s) 0 0 0 out =
        a2b_loop s 2 ((16 * x + y div 16) mod 16) 4
          (out @ [char_of ((16 * x + y div 16) div 16 mod 256)])"
    by (simp only: a2b_step0 [OF b(1)] a2b_step1 [OF b(2)] sextets_1)
  then show ?thesis using assms by simp
qed

lemma a2b_third:
  assumes "y < 256" "z < 256"
  shows "a2b_loop (b64_char (y mod 16 * 4 + z div 64) # s) 2 (y div 16) 4 out =
         a2b_loop s 3 (z div 64) 2 (out @ [char_of y])"
proof -
  have b: "y mod 16 * 4 + z div 64 < 64"
    using assms by auto
  have "a2b_loop (b64_char (y mod 16 * 4 + z div 64) # s) 2 (y div 16) 4 out =
        a2b_loop s 3 ((4 * y + z div 64) mod 4) 2 (out @ [char_of ((4 * y + z div 64) div 4 mod 256)])"
    by (simp only: a2b_step2 [OF b] sextets_2)
  then show ?thesis using assms by simp
qed

lemma a2b_fourth:
  assumes "z < 256"
  shows "a2b_loop (b64_char (z mod 64) # s) 3 (z div 64) 2 out = a2b_loop s 0 0 0 (out @ [char_of z])"
proof -
  have b: "z mod 64 < 64" by simp
  show ?thesis by (simp only: a2b_step3 [OF b]) simp
qed

lemma a2b_quad:
  assumes "x < 256" "y < 256" "z < 256"
  shows "a2b_loop (b64_char (x div 4) # b64_char (x mod 4 * 16 + y div 16) #
            b64_char (y mod 16 * 4 + z div 64) # b64_char (z mod 64) # s) 0 0 0 out =
         a2b_loop s 0 0 0 (out @ [char_of x, char_of y, char_of z])"
  by (simp only: a2b_pair [OF assms(1,2)] a2b_third [OF assms(2,3)] a2b_fourth [OF assms(3)])
     simp
lemma a2b_pad2: "a2b_loop ''=='' 2 lc lb out = (0, out)"
  by (simp add: b64_val_def)

lemma a2b_pad1: "a2b_loop ''='' 3 lc lb out = (0, out)"
  by simp

lemma a2b_loop_b64encode: "a2b_loop (b64encode s) 0 0 0 out = (0, out @ s)"
proof (induction s arbitrary: out rule: b64encode.induct)
  case 1
  show ?case by simp
next
  case (2 a)
  have "a2b_loop (b64_char (of_char a div 4) # b64_char (of_char a mod 4 * 16 + 0 div 16) # ''=='')
          0 0 0 out = a2b_loop ''=='' 2 (0 div 16) 4 (out @ [char_of (of_char a :: nat)])"
    by (rule a2b_pair) (simp_all add: of_char_lt_256)
  then show ?case by (simp add: a2b_pad2 Let_def del: a2b_loop.simps)
next
  case (3 a b)
  have "a2b_loop (b64_char (of_char a div 4) # b64_char (of_char a mod 4 * 16 + of_char b div 16) #
           b64_char (of_char b mod 16 * 4 + 0 div 64) # ''='') 0 0 0 out =
        a2b_loop (b64_char (of_char b mod 16 * 4 + 0 div 64) # ''='') 2 (of_char b div 16) 4
           (out @ [char_of (of_char a :: nat)])"
    by (rule a2b_pair) (simp_all add: of_char_lt_256)
  also have "\<dots> = a2b_loop ''='' 3 (0 div 64) 2 ((out @ [char_of (of_char a :: nat)]) @ [char_of (of_char b :: nat)])"
    by (rule a2b_third) (simp_all add: of_char_lt_256)
  finally show ?case by (simp add: a2b_pad1 Let_def del: a2b_loop.simps)
next
  case (4 a b c rest)
  have "a2b_loop (b64_char (of_char a div 4) # b64_char (of_char a mod 4 * 16 + of_char b div 16) #
           b64_char (of_char b mod 16 * 4 + of_char c div 64) # b64_char (of_char c mod 64) #
           b64encode rest) 0 0 0 out =
        a2b_loop (b64encode rest) 0 0 0
           (out @ [char_of (of_char a :: nat), char_of (of_char b :: nat), char_of (of_char c :: nat)])"
    by (rule a2b_quad) (simp_all add: of_char_lt_256)
  then show ?case using 4 by (simp add: Let_def del: a2b_loop.simps)
qed

lemma b64decode_b64encode: "b64decode (b64encode s) = Inr s"
  by (simp add: b64decode_def a2b_loop_b64encode)
text \<open>\<^verbatim>\<open>int\<close> reads back what \<^verbatim>\<open>str\<close> writes.\<close>

lemma is_digit_digit_char: "d < 10 \<Longrightarrow> is_digit (digit_char d)"
  by (simp add: is_digit_def of_char_digit_char)

lemma digits_of_nonempty: "digits_of n \<noteq> []"
  by (subst digits_of.simps) simp

lemma digits_of_all_digits: "list_all is_digit (digits_of n)"
proof (induction n rule: digits_of.induct)
  case (1 n)
  show ?case
  proof (cases "n < 10")
    case True
    then show ?thesis by (simp add: digits_of.simps [of n] is_digit_digit_char)
  next
    case False
    then show ?thesis using 1 by (simp add: digits_of.simps [of n] is_digit_digit_char)
  qed
qed

lemma dec_val_snoc: "dec_val (ds @ [c]) = 10 * dec_val ds + (of_char c - 48)"
  by (simp add: dec_val_def)

lemma dec_val_digits_of: "dec_val (digits_of n) = n"
proof (induction n rule: digits_of.induct)
  case (1 n)
  show ?case
  proof (cases "n < 10")
    case True
    then show ?thesis by (simp add: digits_of.simps [of n] dec_val_def of_char_digit_char)
  next
    case False
    then have "dec_val (digits_of n) = 10 * (n div 10) + n mod 10"
      using 1 by (simp add: digits_of.simps [of n] dec_val_snoc of_char_digit_char)
    then show ?thesis by simp
  qed
qed

lemma parse_nat_digits_of: "parse_nat (digits_of n) = Inr n"
  by (simp add: parse_nat_def digits_of_nonempty digits_of_all_digits dec_val_digits_of)

lemma is_digit_not_space: "is_digit c \<Longrightarrow> \<not> is_space c"
  by (auto simp: is_digit_def is_space_def)

lemma is_digit_not_sign: "is_digit c \<Longrightarrow> c \<noteq> CHR ''-'' \<and> c \<noteq> CHR ''+''"
  by (auto simp: is_digit_def)

lemma strip_id:
  assumes "s \<noteq> []" "\<not> is_space (hd s)" "\<not> is_space (last s)"
  shows "strip s = s"
proof -
  have 1: "dropWhile is_space s = s"
    using assms(1,2) by (cases s) auto
  have 2: "dropWhile is_space (rev s) = rev s"
    using assms(1,3) by (cases "rev s") (auto simp: hd_rev [symmetric])
  show ?thesis by (simp add: strip_def 1 2)
qed

lemma digits_of_hd_last: "is_digit (hd (digits_of n)) \<and> is_digit (last (digits_of n))"
  using digits_of_all_digits [of n] digits_of_nonempty [of n]
  by (simp add: list_all_iff)

lemma py_int_py_str: "py_int (py_str i) = Inr i"
proof (cases "i < 0")
  case True
  let ?ds = "digits_of (nat (- i))"
  have m: "\<not> is_space CHR ''-''"
    by (simp add: is_space_def)
  have l: "\<not> is_space (last ?ds)"
    using digits_of_hd_last [of "nat (- i)"] by (simp add: is_digit_not_space)
  have "strip (CHR ''-'' # ?ds) = CHR ''-'' # ?ds"
    using m l digits_of_nonempty [of "nat (- i)"]
    by (intro strip_id) simp_all
  then show ?thesis
    using True by (simp add: py_int_def py_str_def parse_nat_digits_of)
next
  case False
  let ?ds = "digits_of (nat i)"
  obtain c r where cr: "?ds = c # r"
    using digits_of_nonempty [of "nat i"] by (cases ?ds) auto
  have d: "is_digit c"
    using digits_of_hd_last [of "nat i"] cr by simp
  have "strip ?ds = ?ds"
    using digits_of_hd_last [of "nat i"] digits_of_nonempty [of "nat i"]
    by (intro strip_id) (auto simp: is_digit_not_space)
  then have s: "strip ?ds = c # r" using cr by simp
  have p: "parse_nat (c # r) = Inr (nat i)"
    using parse_nat_digits_of [of "nat i"] cr by simp
  show ?thesis
    using False is_digit_not_sign [OF d] by (simp add: py_int_def py_str_def s p)
qed

lemma join_three: "join_with sep [a, b, c] = a @ sep @ b @ sep @ c"
  by simp

lemma split_three:
  assumes "CHR ''|'' \<notin> set a" "CHR ''|'' \<notin> set b" "CHR ''|'' \<notin> set c"
  shows "split_on CHR ''|'' (a @ ''|'' @ b @ ''|'' @ c) = [a, b, c]"
  using assms by (simp add: split_on_append split_on_no_sep)
lemma priv_sign_vals_signed:
  "priv_sign_vals key [u, ik] prefix expire now =
     Inr (signed_value key prefix (u @ ''|'' @ ik @ ''|'' @ py_str (now + expire)))"
  by (simp add: priv_sign_vals_def signed_value_def Let_def)

lemma split_signed_value:
  "CHR ''|'' \<notin> set p \<Longrightarrow>
   split_on CHR ''|'' (signed_value key p x) =
     [p, b64encode x, priv_hmac_sha1 key (p @ ''|'' @ b64encode x)]"
  by (simp add: signed_value_def split_on_append split_on_no_sep b64encode_no_sep hmac_no_sep)

lemma signed_value_no_colon: "CHR '':'' \<notin> set p \<Longrightarrow> CHR '':'' \<notin> set (signed_value key p x)"
  by (simp add: signed_value_def b64encode_no_sep hmac_no_sep)

lemma split_colon:
  "CHR '':'' \<notin> set a \<Longrightarrow> CHR '':'' \<notin> set b \<Longrightarrow> split_on CHR '':'' (a @ '':'' @ b) = [a, b]"
  by (simp add: split_on_append split_on_no_sep)

lemma parse_signed_prefix_mismatch:
  "CHR ''|'' \<notin> set p \<Longrightarrow> p \<noteq> prefix \<Longrightarrow>
   priv_parse_vals key (signed_value key p x) prefix ts = Inr None"
  by (simp add: priv_parse_vals_def split_signed_value)

lemma split_three_cons:
  assumes "CHR ''|'' \<notin> set a" "CHR ''|'' \<notin> set b" "CHR ''|'' \<notin> set c"
  shows "split_on CHR ''|'' (a @ CHR ''|'' # b @ CHR ''|'' # c) = [a, b, c]"
  using assms by (simp add: split_on_append split_on_no_sep)

lemma parse_signed_ok:
  assumes "CHR ''|'' \<notin> set p" "CHR ''|'' \<notin> set u" "CHR ''|'' \<notin> set ik"
  shows "priv_parse_vals key (signed_value key p (u @ ''|'' @ ik @ ''|'' @ py_str e)) p ts =
     Inr (if ts < e then Some u else None)"
  using assms
  by (simp add: priv_parse_vals_def split_signed_value b64decode_b64encode split_three_cons
      py_str_no_sep py_int_py_str)

lemma length_split_on: "length (split_on c s) = Suc (length (filter (\<lambda>x. x = c) s))"
  by (induction s) (auto split: list.splits simp: split_on_nonempty)

lemma case_not_three:
  "length xs \<noteq> 3 \<Longrightarrow> (case xs of [a, b, c] \<Rightarrow> f a b c | _ \<Rightarrow> d) = d"
  by (auto split: list.splits)

lemma case_not_two:
  "length xs \<noteq> 2 \<Longrightarrow> (case xs of [a, b] \<Rightarrow> f a b | _ \<Rightarrow> d) = d"
  by (auto split: list.splits)

lemma filter_sep_pos: "c \<in> set s \<Longrightarrow> 0 < length (filter (\<lambda>x. x = c) s)"
  by (induction s) auto

lemma split_payload_long:
  assumes "CHR ''|'' \<in> set u \<or> CHR ''|'' \<in> set ik"
  shows "length (split_on CHR ''|'' (u @ ''|'' @ ik @ ''|'' @ e)) \<noteq> 3"
  using assms filter_sep_pos [of "CHR ''|''" u] filter_sep_pos [of "CHR ''|''" ik]
  by (auto simp: length_split_on)

lemma parse_signed_bad_payload:
  assumes "CHR ''|'' \<notin> set p" "CHR ''|'' \<in> set u \<or> CHR ''|'' \<in> set ik"
  shows "priv_parse_vals key (signed_value key p (u @ ''|'' @ ik @ ''|'' @ e)) p ts = Inl ValueError"
  using assms(1) split_payload_long [OF assms(2), of e]
  by (simp add: priv_parse_vals_def split_signed_value b64decode_b64encode case_not_three)
lemma priv_sign_vals_signed_gen:
  "priv_sign_vals key vals prefix expire now =
     Inr (signed_value key prefix (join_with ''|'' (vals @ [py_str (now + expire)])))"
  by (simp add: priv_sign_vals_def signed_value_def Let_def)

lemma priv_sign_request_signed:
  assumes "username \<noteq> []" "length ikey = 20" "length skey = 40" "length akey \<ge> 40"
  shows "priv_sign_request ikey skey akey username prefix now1 now2 =
     Inr (signed_value skey prefix (username @ ''|'' @ ikey @ ''|'' @ py_str (now1 + 300))
          @ '':'' @
          signed_value akey ''APP'' (username @ ''|'' @ ikey @ ''|'' @ py_str (now2 + 3600)))"
  using priv_sign_request_valid [OF assms] by (simp add: signed_value_def)

lemma verify_pair:
  assumes "CHR '':'' \<notin> set a" "CHR '':'' \<notin> set b"
    and "priv_parse_vals skey a prefix ts1 = r1"
    and "priv_parse_vals akey b APP_PREFIX ts2 = r2"
  shows "priv_verify_response ikey skey akey prefix (a @ '':'' @ b) ts1 ts2 =
     (case r1 of
        Inl e \<Rightarrow> Inr None
      | Inr user \<Rightarrow>
          (case r2 of
             Inl e \<Rightarrow> Inr None
           | Inr app_user \<Rightarrow> if user \<noteq> app_user then Inr None else Inr user))"
  using assms
  by (simp add: priv_verify_response_def verify_try_def split_on_append split_on_no_sep
      split: sum.splits)

lemma verify_first_None:
  assumes "CHR '':'' \<notin> set a" "CHR '':'' \<notin> set b"
    and "priv_parse_vals skey a prefix ts1 = Inr None"
  shows "priv_verify_response ikey skey akey prefix (a @ '':'' @ b) ts1 ts2 = Inr None"
  using verify_pair [OF assms(1,2) assms(3) refl, where akey = akey and ?ts2.0 = ts2 and ikey = ikey]
  by (simp split: sum.splits)

lemma split_on_pieces: "x \<in> set (split_on c s) \<Longrightarrow> c \<notin> set x"
proof (induction s arbitrary: x)
  case Nil
  then show ?case by simp
next
  case (Cons y s)
  show ?case
  proof (cases "y = c")
    case True
    then show ?thesis using Cons by auto
  next
    case False
    obtain r rs where rs: "split_on c s = r # rs"
      using split_on_nonempty [of c s] by (cases "split_on c s") auto
    have "c \<notin> set r" using Cons.IH [of r] rs by simp
    moreover have "\<And>z. z \<in> set rs \<Longrightarrow> c \<notin> set z" using Cons.IH rs by simp
    ultimately show ?thesis using Cons.prems False rs by auto
  qed
qed

lemma parse_collapse:
  "(case parse_value key val prefix ts of Inl f \<Rightarrow> None | Inr u \<Rightarrow> Some u) =
   (case priv_parse_vals key val prefix ts of Inl e \<Rightarrow> None | Inr r \<Rightarrow> r)"
  by (simp add: parse_value_def priv_parse_vals_def decode_payload_def Let_def
      split: list.splits sum.splits)
lemma hexchar_hex: "n < 16 \<Longrightarrow> hexchar n \<in> set ''0123456789abcdef''"
proof -
  assume "n < 16"
  then have "n \<in> {0, 1, 2, 3, 4, 5, 6, 7, 8, 9, 10, 11, 12, 13, 14, 15}" by simp arith
  then show ?thesis by (auto simp: hexchar_def char_of_eq_iff take_bit_eq_mod)
qed

lemma hexlify_hex: "set (hexlify bs) \<subseteq> set ''0123456789abcdef''"
proof (induction bs)
  case Nil
  show ?case by (simp add: hexlify_def)
next
  case (Cons b bs)
  have 1: "hexchar (unat b div 16) \<in> set ''0123456789abcdef''"
    by (rule hexchar_hex) (rule unat_u8_div16)
  have 2: "hexchar (unat b mod 16) \<in> set ''0123456789abcdef''"
    by (rule hexchar_hex) simp
  have "hexlify (b # bs) = hexchar (unat b div 16) # hexchar (unat b mod 16) # hexlify bs"
    by (simp add: hexlify_def)
  then show ?case using 1 2 Cons by (simp del: set_simps) auto
qed

section \<open>The claims\<close>

text \<open>
  C8. The integration key passed to the verify operations is never used: for any two
  integration keys and everything else equal, \<^verbatim>\<open>verify_response\<close> and
  \<^verbatim>\<open>verify_enroll_response\<close> return the same result, so the integration key inside the
  payload is not checked against it.
\<close>

theorem verify_response_ikey_unused:
  "verify_response ikey1 skey akey sig_response ts1 ts2 =
     verify_response ikey2 skey akey sig_response ts1 ts2
   \<and> verify_enroll_response ikey1 skey akey sig_response ts1 ts2 =
     verify_enroll_response ikey2 skey akey sig_response ts1 ts2"
  by (simp add: verify_response_def verify_enroll_response_def priv_verify_response_def)
text \<open>
  C2. The two public verify operations never raise, and every failure mode yields
  \<^verbatim>\<open>None\<close>: for every response string the result is a returned value, and it is the
  username exactly when the response splits at the colon into two parts that both pass
  the parser of the specification (three fields, matching signature, matching prefix,
  decodable payload with an integer expiration, not expired) with the same username;
  in every other case it is \<^verbatim>\<open>None\<close>.
\<close>

theorem verify_never_raises:
  "verify_response ikey skey akey sig_response ts1 ts2 =
     Inr (verify_contract skey akey AUTH_PREFIX sig_response ts1 ts2)
   \<and> verify_enroll_response ikey skey akey sig_response ts1 ts2 =
     Inr (verify_contract skey akey ENROLL_PREFIX sig_response ts1 ts2)"
proof -
  have main: "priv_verify_response ikey skey akey prefix sig_response ts1 ts2 =
      Inr (verify_contract skey akey prefix sig_response ts1 ts2)" for prefix
  proof (cases "\<exists>a b. split_on CHR '':'' sig_response = [a, b]")
    case False
    then have "length (split_on CHR '':'' sig_response) \<noteq> 2"
      by (auto simp: length_Suc_conv numeral_2_eq_2)
    then show ?thesis
      by (simp add: priv_verify_response_def verify_try_def verify_contract_def case_not_two)
  next
    case True
    then obtain a b where ab: "split_on CHR '':'' sig_response = [a, b]" by blast
    have c1: "(case parse_value skey a prefix ts1 of Inl f \<Rightarrow> None | Inr u \<Rightarrow> Some u) =
        (case priv_parse_vals skey a prefix ts1 of Inl e \<Rightarrow> None | Inr r \<Rightarrow> r)"
      by (rule parse_collapse)
    have c2: "(case parse_value akey b APP_PREFIX ts2 of Inl f \<Rightarrow> None | Inr u \<Rightarrow> Some u) =
        (case priv_parse_vals akey b APP_PREFIX ts2 of Inl e \<Rightarrow> None | Inr r \<Rightarrow> r)"
      by (rule parse_collapse)
    show ?thesis
      using c1 c2
      by (auto simp: priv_verify_response_def verify_try_def verify_contract_def ab
          split: sum.splits option.splits)
  qed
  show ?thesis
    by (simp add: verify_response_def verify_enroll_response_def main)
qed

text \<open>
  C4. Input validation when signing: \<^verbatim>\<open>sign_request\<close> and \<^verbatim>\<open>sign_enroll_request\<close>
  return the username sentinel for an empty username, the integration key sentinel for
  an integration key whose length is not 20, the secret key sentinel for a secret key
  whose length is not 40 and the application key sentinel for an application key shorter
  than 40, each when the checks before it pass; the four sentinels differ from each
  other; nothing is raised; and with all inputs valid the result is none of the
  sentinels.
\<close>

theorem sign_request_validation:
  fixes ikey skey akey username :: string and now1 now2 :: int
  defines "r \<equiv> sign_request ikey skey akey username now1 now2"
    and "e \<equiv> sign_enroll_request ikey skey akey username now1 now2"
  shows "(username = [] \<longrightarrow> r = Inr ERR_USER \<and> e = Inr ERR_USER)
    \<and> (username \<noteq> [] \<and> length ikey \<noteq> 20 \<longrightarrow> r = Inr ERR_IKEY \<and> e = Inr ERR_IKEY)
    \<and> (username \<noteq> [] \<and> length ikey = 20 \<and> length skey \<noteq> 40 \<longrightarrow>
         r = Inr ERR_SKEY \<and> e = Inr ERR_SKEY)
    \<and> (username \<noteq> [] \<and> length ikey = 20 \<and> length skey = 40 \<and> length akey < 40 \<longrightarrow>
         r = Inr ERR_AKEY \<and> e = Inr ERR_AKEY)
    \<and> (username \<noteq> [] \<and> length ikey = 20 \<and> length skey = 40 \<and> 40 \<le> length akey \<longrightarrow>
         r \<notin> Inr ` {ERR_USER, ERR_IKEY, ERR_SKEY, ERR_AKEY, ERR_UNKNOWN} \<and>
         e \<notin> Inr ` {ERR_USER, ERR_IKEY, ERR_SKEY, ERR_AKEY, ERR_UNKNOWN})
    \<and> (\<exists>s. r = Inr s) \<and> (\<exists>s. e = Inr s)
    \<and> distinct [ERR_USER, ERR_IKEY, ERR_SKEY, ERR_AKEY, ERR_UNKNOWN]"
proof -
  have bad: "username = [] \<longrightarrow> r = Inr ERR_USER \<and> e = Inr ERR_USER"
    "username \<noteq> [] \<and> length ikey \<noteq> 20 \<longrightarrow> r = Inr ERR_IKEY \<and> e = Inr ERR_IKEY"
    "username \<noteq> [] \<and> length ikey = 20 \<and> length skey \<noteq> 40 \<longrightarrow>
       r = Inr ERR_SKEY \<and> e = Inr ERR_SKEY"
    "username \<noteq> [] \<and> length ikey = 20 \<and> length skey = 40 \<and> length akey < 40 \<longrightarrow>
       r = Inr ERR_AKEY \<and> e = Inr ERR_AKEY"
    unfolding r_def e_def
    by (auto simp: sign_request_def sign_enroll_request_def priv_sign_request_def
        IKEY_LEN_def SKEY_LEN_def AKEY_LEN_def)
  have good: "r \<notin> Inr ` {ERR_USER, ERR_IKEY, ERR_SKEY, ERR_AKEY, ERR_UNKNOWN} \<and>
       e \<notin> Inr ` {ERR_USER, ERR_IKEY, ERR_SKEY, ERR_AKEY, ERR_UNKNOWN}"
    if v: "username \<noteq> []" "length ikey = 20" "length skey = 40" "40 \<le> length akey"
    unfolding r_def e_def sign_request_def sign_enroll_request_def
      priv_sign_request_signed [OF v]
    by (simp add: signed_value_def DUO_PREFIX_def ENROLL_REQUEST_PREFIX_def
        ERR_USER_def ERR_IKEY_def ERR_SKEY_def ERR_AKEY_def ERR_UNKNOWN_def)
  have val: "(\<exists>s. r = Inr s) \<and> (\<exists>s. e = Inr s)"
    unfolding r_def e_def
    by (simp add: sign_request_def sign_enroll_request_def priv_sign_request_def
        priv_sign_vals_def Let_def)
  have dist: "distinct [ERR_USER, ERR_IKEY, ERR_SKEY, ERR_AKEY, ERR_UNKNOWN]"
    by (simp add: ERR_USER_def ERR_IKEY_def ERR_SKEY_def ERR_AKEY_def ERR_UNKNOWN_def)
  show ?thesis
    using bad good val dist by blast
qed
theorem sign_request_validation_witness:
  "sign_request ''IIIIIIIIIIIIIIIIIII'' ''SSSSSSSSSSSSSSSSSSSSSSSSSSSSSSSSSSSSSSSS''
      ''AAAAAAAAAAAAAAAAAAAAAAAAAAAAAAAAAAAAAAAA'' ''jsmith'' 1000 1000 = Inr ERR_IKEY
   \<and> sign_request ''IIIIIIIIIIIIIIIIIIII'' ''SSSSSSSSSSSSSSSSSSSSSSSSSSSSSSSSSSSSSSSS''
      ''AAAAAAAAAAAAAAAAAAAAAAAAAAAAAAAAAAAAAAA'' ''jsmith'' 1000 1000 = Inr ERR_AKEY
   \<and> sign_request ''IIIIIIIIIIIIIIIIIIII'' ''SSSSSSSSSSSSSSSSSSSSSSSSSSSSSSSSSSSSSSS''
      ''AAAAAAAAAAAAAAAAAAAAAAAAAAAAAAAAAAAAAAAA'' ''jsmith'' 1000 1000 = Inr ERR_SKEY
   \<and> sign_request ''IIIIIIIIIIIIIIIIIIII'' ''SSSSSSSSSSSSSSSSSSSSSSSSSSSSSSSSSSSSSSSS''
      ''AAAAAAAAAAAAAAAAAAAAAAAAAAAAAAAAAAAAAAAA'' [] 1000 1000 = Inr ERR_USER
   \<and> sign_request ''IIIIIIIIIIIIIIIIIIII'' ''SSSSSSSSSSSSSSSSSSSSSSSSSSSSSSSSSSSSSSSS''
      ''AAAAAAAAAAAAAAAAAAAAAAAAAAAAAAAAAAAAAAAA'' ''jsmith'' 1000 1000
      \<notin> Inr ` {ERR_USER, ERR_IKEY, ERR_SKEY, ERR_AKEY, ERR_UNKNOWN}"
  using
    sign_request_validation [of "''jsmith''" "''IIIIIIIIIIIIIIIIIII''"
      "''SSSSSSSSSSSSSSSSSSSSSSSSSSSSSSSSSSSSSSSS''" "''AAAAAAAAAAAAAAAAAAAAAAAAAAAAAAAAAAAAAAAA''" 1000 1000]
    sign_request_validation [of "''jsmith''" "''IIIIIIIIIIIIIIIIIIII''"
      "''SSSSSSSSSSSSSSSSSSSSSSSSSSSSSSSSSSSSSSSS''" "''AAAAAAAAAAAAAAAAAAAAAAAAAAAAAAAAAAAAAAA''" 1000 1000]
    sign_request_validation [of "''jsmith''" "''IIIIIIIIIIIIIIIIIIII''"
      "''SSSSSSSSSSSSSSSSSSSSSSSSSSSSSSSSSSSSSSS''" "''AAAAAAAAAAAAAAAAAAAAAAAAAAAAAAAAAAAAAAAA''" 1000 1000]
    sign_request_validation [of "[]" "''IIIIIIIIIIIIIIIIIIII''"
      "''SSSSSSSSSSSSSSSSSSSSSSSSSSSSSSSSSSSSSSSS''" "''AAAAAAAAAAAAAAAAAAAAAAAAAAAAAAAAAAAAAAAA''" 1000 1000]
    sign_request_validation [of "''jsmith''" "''IIIIIIIIIIIIIIIIIIII''"
      "''SSSSSSSSSSSSSSSSSSSSSSSSSSSSSSSSSSSSSSSS''" "''AAAAAAAAAAAAAAAAAAAAAAAAAAAAAAAAAAAAAAAA''" 1000 1000]
  by simp

text \<open>
  C5. Wire format: for valid inputs \<^verbatim>\<open>sign_request\<close> returns the provider part, a colon
  and the application part. Each part is its prefix, a bar, the base64 of username, bar,
  integration key, bar, expiration, then a bar and the HMAC-SHA1 of prefix, bar and
  payload as 40 lowercase hexadecimal digits. The provider part has prefix \<^verbatim>\<open>TX\<close>,
  expiration 300 seconds after its clock reading, and the secret key; the application
  part has prefix \<^verbatim>\<open>APP\<close>, expiration 3600 seconds after its clock reading, and the
  application key.
\<close>

theorem sign_request_wire_format:
  assumes "username \<noteq> []" "length ikey = 20" "length skey = 40" "40 \<le> length akey"
  shows "sign_request ikey skey akey username now1 now2 =
     Inr ((''TX|'' @ b64encode (username @ ''|'' @ ikey @ ''|'' @ py_str (now1 + 300)) @ ''|'' @
            priv_hmac_sha1 skey
              (''TX|'' @ b64encode (username @ ''|'' @ ikey @ ''|'' @ py_str (now1 + 300))))
          @ '':'' @
          (''APP|'' @ b64encode (username @ ''|'' @ ikey @ ''|'' @ py_str (now2 + 3600)) @ ''|'' @
            priv_hmac_sha1 akey
              (''APP|'' @ b64encode (username @ ''|'' @ ikey @ ''|'' @ py_str (now2 + 3600)))))
   \<and> length (priv_hmac_sha1 k m) = 40
   \<and> set (priv_hmac_sha1 k m) \<subseteq> set ''0123456789abcdef''"
proof -
  have "sign_request ikey skey akey username now1 now2 =
     Inr ((''TX|'' @ b64encode (username @ ''|'' @ ikey @ ''|'' @ py_str (now1 + 300)) @ ''|'' @
            priv_hmac_sha1 skey
              (''TX|'' @ b64encode (username @ ''|'' @ ikey @ ''|'' @ py_str (now1 + 300))))
          @ '':'' @
          (''APP|'' @ b64encode (username @ ''|'' @ ikey @ ''|'' @ py_str (now2 + 3600)) @ ''|'' @
            priv_hmac_sha1 akey
              (''APP|'' @ b64encode (username @ ''|'' @ ikey @ ''|'' @ py_str (now2 + 3600)))))"
    using priv_sign_request_valid [OF assms, of DUO_PREFIX now1 now2]
    by (simp add: sign_request_def DUO_PREFIX_def)
  moreover have "length (priv_hmac_sha1 k m) = 40"
    by (rule length_hmac)
  moreover have "set (priv_hmac_sha1 k m) \<subseteq> set ''0123456789abcdef''"
    by (simp only: priv_hmac_sha1_def hexlify_hex)
  ultimately show ?thesis by blast
qed
theorem sign_request_wire_format_witness:
  "sign_request ''IIIIIIIIIIIIIIIIIIII'' ''SSSSSSSSSSSSSSSSSSSSSSSSSSSSSSSSSSSSSSSS''
      ''AAAAAAAAAAAAAAAAAAAAAAAAAAAAAAAAAAAAAAAA'' ''jsmith'' 1000 2000 =
     Inr ((''TX|'' @ b64encode (''jsmith|IIIIIIIIIIIIIIIIIIII|'' @ py_str 1300) @ ''|'' @
            priv_hmac_sha1 ''SSSSSSSSSSSSSSSSSSSSSSSSSSSSSSSSSSSSSSSS''
              (''TX|'' @ b64encode (''jsmith|IIIIIIIIIIIIIIIIIIII|'' @ py_str 1300)))
          @ '':'' @
          (''APP|'' @ b64encode (''jsmith|IIIIIIIIIIIIIIIIIIII|'' @ py_str 5600) @ ''|'' @
            priv_hmac_sha1 ''AAAAAAAAAAAAAAAAAAAAAAAAAAAAAAAAAAAAAAAA''
              (''APP|'' @ b64encode (''jsmith|IIIIIIIIIIIIIIIIIIII|'' @ py_str 5600))))"
  using sign_request_wire_format [of "''jsmith''" "''IIIIIIIIIIIIIIIIIIII''"
      "''SSSSSSSSSSSSSSSSSSSSSSSSSSSSSSSSSSSSSSSS''" "''AAAAAAAAAAAAAAAAAAAAAAAAAAAAAAAAAAAAAAAA''" 1000 2000]
  by simp

text \<open>
  C3. Expiration is strict and is checked when parsing only: a parse that returns a
  username has read an expiration from the payload that is greater than the clock
  reading; a value signed at time \<open>t\<close> with duration 300 parses to its username at every
  clock reading below \<open>t + 300\<close>, in particular at \<open>t + 299\<close>, and to \<^verbatim>\<open>None\<close> at
  \<open>t + 300\<close> and later. (The signed claims and the prefix contain no bar.)
\<close>

theorem expiration_strict:
  assumes "CHR ''|'' \<notin> set prefix" "CHR ''|'' \<notin> set u" "CHR ''|'' \<notin> set ik"
    and "priv_sign_vals key [u, ik] prefix DUO_EXPIRE t = Inr val"
  shows "(ts < t + 300 \<longrightarrow> priv_parse_vals key val prefix ts = Inr (Some u))
     \<and> (t + 300 \<le> ts \<longrightarrow> priv_parse_vals key val prefix ts = Inr None)
     \<and> priv_parse_vals key val prefix (t + 299) = Inr (Some u)
     \<and> priv_parse_vals key val prefix (t + 300) = Inr None
     \<and> (priv_parse_vals key' val' prefix' ts' = Inr (Some u') \<longrightarrow>
          (\<exists>b64 sg payload ik' e x.
              split_on CHR ''|'' val' = [prefix', b64, sg] \<and> b64decode b64 = Inr payload \<and>
              split_on CHR ''|'' payload = [u', ik', e] \<and> py_int e = Inr x \<and> ts' < x))"
proof -
  have val: "val = signed_value key prefix (u @ ''|'' @ ik @ ''|'' @ py_str (t + 300))"
    using assms(4) by (simp add: priv_sign_vals_signed DUO_EXPIRE_def)
  have p: "priv_parse_vals key val prefix ts0 = Inr (if ts0 < t + 300 then Some u else None)"
    for ts0
    unfolding val by (rule parse_signed_ok [OF assms(1,2,3)])
  have g: "priv_parse_vals key' val' prefix' ts' = Inr (Some u') \<longrightarrow>
          (\<exists>b64 sg payload ik' e x.
              split_on CHR ''|'' val' = [prefix', b64, sg] \<and> b64decode b64 = Inr payload \<and>
              split_on CHR ''|'' payload = [u', ik', e] \<and> py_int e = Inr x \<and> ts' < x)"
    by (auto simp: priv_parse_vals_def Let_def split: list.splits sum.splits if_splits)
  show ?thesis
    using g by (simp add: p)
qed

theorem expiration_strict_witness:
  "priv_parse_vals ''SSSSSSSSSSSSSSSSSSSSSSSSSSSSSSSSSSSSSSSS''
      (projr (priv_sign_vals ''SSSSSSSSSSSSSSSSSSSSSSSSSSSSSSSSSSSSSSSS''
         [''jsmith'', ''IIIIIIIIIIIIIIIIIIII''] AUTH_PREFIX DUO_EXPIRE 1000)) AUTH_PREFIX 1299
     = Inr (Some ''jsmith'')
   \<and> priv_parse_vals ''SSSSSSSSSSSSSSSSSSSSSSSSSSSSSSSSSSSSSSSS''
      (projr (priv_sign_vals ''SSSSSSSSSSSSSSSSSSSSSSSSSSSSSSSSSSSSSSSS''
         [''jsmith'', ''IIIIIIIIIIIIIIIIIIII''] AUTH_PREFIX DUO_EXPIRE 1000)) AUTH_PREFIX 1300
     = Inr None"
proof -
  let ?k = "''SSSSSSSSSSSSSSSSSSSSSSSSSSSSSSSSSSSSSSSS''"
  let ?v = "signed_value ?k AUTH_PREFIX (''jsmith'' @ ''|'' @ ''IIIIIIIIIIIIIIIIIIII'' @ ''|'' @ py_str (1000 + DUO_EXPIRE))"
  have s: "priv_sign_vals ?k [''jsmith'', ''IIIIIIIIIIIIIIIIIIII''] AUTH_PREFIX DUO_EXPIRE 1000 = Inr ?v"
    by (rule priv_sign_vals_signed)
  have a: "CHR ''|'' \<notin> set AUTH_PREFIX" "CHR ''|'' \<notin> set ''jsmith''"
    "CHR ''|'' \<notin> set ''IIIIIIIIIIIIIIIIIIII''"
    by (simp_all add: AUTH_PREFIX_def)
  have "priv_parse_vals ?k ?v AUTH_PREFIX (1000 + 299) = Inr (Some ''jsmith'')
      \<and> priv_parse_vals ?k ?v AUTH_PREFIX (1000 + 300) = Inr None"
    using expiration_strict [OF a s] by blast
  then show ?thesis
    by (simp only: s sum.sel) simp
qed

end
